theory Spec2Isabelle
  imports Main "HOL-Library.Word"
begin

section \<open>Strings: the library functions the dispatch core calls\<close>

text \<open>
  Go strings are byte sequences; a token is modelled as a \<open>string\<close> (a list of bytes).
  The library functions below are modelled on ASCII input, where they act byte by byte;
  bytes from 128 on are left as they are.
\<close>

definition is_upper :: "char \<Rightarrow> bool" where
  "is_upper ch = (65 \<le> (of_char ch :: nat) \<and> (of_char ch :: nat) \<le> 90)"

definition is_lower :: "char \<Rightarrow> bool" where
  "is_lower ch = (97 \<le> (of_char ch :: nat) \<and> (of_char ch :: nat) \<le> 122)"

definition is_digit :: "char \<Rightarrow> bool" where
  "is_digit ch = (48 \<le> (of_char ch :: nat) \<and> (of_char ch :: nat) \<le> 57)"

text \<open>\<open>unicode.ToLower\<close> and \<open>unicode.ToTitle\<close> on one ASCII character.\<close>

definition lower_char :: "char \<Rightarrow> char" where
  "lower_char ch = (if is_upper ch then char_of ((of_char ch :: nat) + 32) else ch)"

definition title_char :: "char \<Rightarrow> char" where
  "title_char ch = (if is_lower ch then char_of ((of_char ch :: nat) - 32) else ch)"

text \<open>\<open>strings.ToLower\<close>.\<close>

definition ToLower :: "string \<Rightarrow> string" where
  "ToLower s = map lower_char s"

text \<open>
  \<open>strings.Split(s, "'")[0]\<close>: the part of \<open>s\<close> before its first quote character
  (all of \<open>s\<close> when it has none). \<open>Split\<close> with a non-empty separator returns at least
  one element, so the index never fails.
\<close>

definition quote :: char where
  "quote = CHR 0x27"

definition split_quote_head :: "string \<Rightarrow> string" where
  "split_quote_head s = takeWhile (\<lambda>ch. ch \<noteq> quote) s"

text \<open>
  \<open>strings.Title\<close>: the first letter of every word is mapped to title case, a word
  starting after a separator; \<open>isSeparator\<close> holds of every ASCII character that is not a
  letter, a digit or the underscore.
\<close>

definition isSeparator :: "char \<Rightarrow> bool" where
  "isSeparator ch =
     ((of_char ch :: nat) \<le> 127 \<and>
      \<not> (is_digit ch \<or> is_lower ch \<or> is_upper ch \<or> ch = CHR ''_''))"

fun title_from :: "char \<Rightarrow> string \<Rightarrow> string" where
  "title_from prev [] = []"
| "title_from prev (r # rs) =
     (if isSeparator prev then title_char r else r) # title_from r rs"

definition Title :: "string \<Rightarrow> string" where
  "Title s = title_from (CHR '' '') s"

text \<open>\<open>strconv.Itoa\<close>: the decimal digits of an integer, with a minus sign.\<close>

definition digit_char :: "nat \<Rightarrow> char" where
  "digit_char d = char_of (48 + d)"

function dec_digits :: "nat \<Rightarrow> string" where
  "dec_digits n =
     (if n < 10 then [digit_char n] else dec_digits (n div 10) @ [digit_char (n mod 10)])"
  by pat_completeness auto
termination
  by (relation "measure (\<lambda>n. n)") auto

declare dec_digits.simps [simp del]

definition Itoa :: "int \<Rightarrow> string" where
  "Itoa i = (if i < 0 then CHR ''-'' # dec_digits (nat (- i)) else dec_digits (nat i))"

section \<open>Data model\<close>

text \<open>
  The structs of the packages \<open>pkg\<close> and \<open>datatypes\<close>, with the fields the dispatch core
  reads and writes. A nil pointer is \<open>None\<close>. A trigger has the shape of a structured
  input: a list of command tokens and a list of object tokens.
\<close>

datatype error = ErrMissingPackage | ErrOther string | PanicNilPointer

datatype RPCClient = Conn nat

record StructuredInput =
  Commands :: "string list"
  Objects :: "string list"

record PkgConfig =
  Name :: string
  ServerAddress :: string
  Port :: "64 word"

record Pkg =
  Config :: PkgConfig
  Trigger :: StructuredInput

record PkgWrapper =
  P :: Pkg
  RPCClient :: RPCClient

record Resp =
  Route :: string

record Input =
  StructuredInput :: StructuredInput

type_synonym User = nat

record Msg =
  User :: "User option"
  Input :: Input
  LastResponse :: "Resp option"
  Route :: string

record ResponseMsg =
  Sentence :: string

text \<open>The global \<open>regPkgs\<close>: a map from route keys to package wrappers.\<close>

type_synonym registry = "string \<rightharpoonup> PkgWrapper"

text \<open>What \<open>RegisterPackage\<close> writes to the log.\<close>

datatype logline =
    LogRegistering int
  | LogBugHere
  | WarnDuplicate string string

section \<open>RegisterPackage\<close>

text \<open>
  The address dialled: \<open>p.Config.ServerAddress + ":" + strconv.Itoa(p.Config.Port + 1)\<close>,
  the addition being that of a 64-bit \<open>int\<close>.
\<close>

definition listen_port :: "Pkg \<Rightarrow> int" where
  "listen_port p = sint (Port (Config p) + 1)"

definition dial_addr :: "Pkg \<Rightarrow> string" where
  "dial_addr p = ServerAddress (Config p) @ '':'' @ Itoa (listen_port p)"

text \<open>The inner loop over the trigger's objects, for the lowercased command \<open>c\<close>.\<close>

fun register_objects ::
  "Pkg \<Rightarrow> RPCClient \<Rightarrow> string \<Rightarrow> string list \<Rightarrow> registry \<times> logline list
     \<Rightarrow> registry \<times> logline list" where
  "register_objects p cl c [] st = st"
| "register_objects p cl c (ob # obs) (reg, logs) =
     (let s = ToLower (c @ ''_'' @ ob);
          logs' = (if reg s \<noteq> None
                   then logs @ [WarnDuplicate (Name (Config p)) s] else logs)
      in register_objects p cl c obs (reg(s \<mapsto> \<lparr>P = p, RPCClient = cl\<rparr>), logs'))"

text \<open>The outer loop over the trigger's commands.\<close>

fun register_commands ::
  "Pkg \<Rightarrow> RPCClient \<Rightarrow> string list \<Rightarrow> registry \<times> logline list
     \<Rightarrow> registry \<times> logline list" where
  "register_commands p cl [] st = st"
| "register_commands p cl (c0 # cs) st =
     (let c = ToLower c0;
          (reg, logs) = register_objects p cl c (Objects (Trigger p)) st
      in register_commands p cl cs (reg(c \<mapsto> \<lparr>P = p, RPCClient = cl\<rparr>), logs))"

text \<open>
  \<open>RegisterPackage\<close>. The network is a parameter: \<open>dial addr\<close> is what
  \<open>rpc.Dial("tcp", addr)\<close> returns. The result is the error returned (if any), the
  registry afterwards and the lines logged.
\<close>

definition RegisterPackage ::
  "(string \<Rightarrow> error + RPCClient) \<Rightarrow> registry \<Rightarrow> Pkg
     \<Rightarrow> error option \<times> registry \<times> logline list" where
  "RegisterPackage dial reg p =
     (let logs = [LogRegistering (listen_port p)]
      in case dial (dial_addr p) of
           Inl err \<Rightarrow> (Some err, reg, logs @ [LogBugHere])
         | Inr cl \<Rightarrow>
             (let (reg', logs') =
                    register_commands p cl (Commands (Trigger p)) (reg, logs)
              in (None, reg', logs')))"

section \<open>getPkg\<close>

text \<open>
  The loop state of \<open>getPkg\<close>: the variables \<open>p\<close>, \<open>route\<close> and \<open>shortRoute\<close>.
\<close>

type_synonym loop_state = "PkgWrapper option \<times> string \<times> string"

text \<open>
  The inner loop over the objects, for the command \<open>c\<close> (already cut at its first quote).
  The flag returned is \<open>True\<close> when the loop left through \<open>break Loop\<close>.
\<close>

fun object_loop :: "registry \<Rightarrow> string \<Rightarrow> string list \<Rightarrow> loop_state \<Rightarrow> bool \<times> loop_state" where
  "object_loop reg c [] st = (False, st)"
| "object_loop reg c (o0 # obs) (p, route, shortRoute) =
     (let ob = split_quote_head o0;
          route' = ToLower (c @ ''_'' @ ob)
      in if reg route' \<noteq> None then (True, (reg route', route', ''''))
         else object_loop reg c obs
                (reg ob, route', (if reg ob \<noteq> None then ob else shortRoute)))"

text \<open>The outer loop over the commands.\<close>

fun command_loop :: "registry \<Rightarrow> string list \<Rightarrow> string list \<Rightarrow> loop_state \<Rightarrow> loop_state" where
  "command_loop reg [] obs st = st"
| "command_loop reg (c0 # cs) obs st =
     (let c = split_quote_head c0
      in case object_loop reg c obs st of
           (True, st') \<Rightarrow> st'
         | (False, (p, route, shortRoute)) \<Rightarrow>
             command_loop reg cs obs
               (reg c, route, (if reg c \<noteq> None then c else shortRoute)))"

text \<open>
  \<open>getPkg\<close>. The method \<open>m.GetLastResponse(db)\<close> belongs to the package \<open>datatypes\<close>; it
  is a parameter here: \<open>glr m\<close> is either the error it returns or the value it leaves in
  \<open>m.LastResponse\<close> (an error leaves the message as it was). The result is the tuple
  returned (\<open>p\<close>, \<open>route\<close>, the last-route flag and the error) and the message afterwards.
  The lines \<open>getPkg\<close> and \<open>callPkg\<close> write to the log are left out: nothing they
  return depends on them.
\<close>

type_synonym getPkg_result = "PkgWrapper option \<times> string \<times> bool \<times> error option"

definition getPkg ::
  "registry \<Rightarrow> (Msg \<Rightarrow> error + Resp option) \<Rightarrow> Msg \<Rightarrow> getPkg_result \<times> Msg" where
  "getPkg reg glr m =
     (if User m = None then
        (if reg ''onboard'' \<noteq> None
         then ((reg ''onboard'', ''onboard'', False, None), m)
         else ((None, ''onboard'', False, Some ErrMissingPackage), m))
      else
        (let si = StructuredInput (Input m);
             (p, route0, shortRoute) =
                command_loop reg (Commands si) (Objects si) (None, '''', '''');
             route = (if length shortRoute > 0 then shortRoute else route0)
         in if p = None then
              (case glr m of
                 Inl err \<Rightarrow> ((p, route, False, Some err), m)
               | Inr lr \<Rightarrow>
                   (let m1 = m\<lparr>LastResponse := lr\<rparr>
                    in case lr of
                         None \<Rightarrow> ((p, route, False, Some ErrMissingPackage), m1)
                       | Some r \<Rightarrow>
                           (if reg (Resp.Route r) = None
                            then ((None, Resp.Route r, True, Some ErrMissingPackage), m1)
                            else ((reg (Resp.Route r), Resp.Route r, False, None),
                                  m1\<lparr>LastResponse := None\<rparr>))))
            else ((p, route, False, None), m)))"

text \<open>
  Modelled from the spec: the persistence collaborator
  \<open>GetLastResponse(user) -> {route, state} | absent\<close>, a read-only lookup; the method
  \<open>m.GetLastResponse\<close> of the package \<open>datatypes\<close> is not among the sources. The store
  maps a user to the last response recorded for them; the lookup leaves the store as it is
  and delivers what it finds, to be put in \<open>m.LastResponse\<close>.
\<close>

definition GetLastResponse :: "(User \<rightharpoonup> Resp) \<Rightarrow> Msg \<Rightarrow> error + Resp option" where
  "GetLastResponse db m = Inr (case User m of None \<Rightarrow> None | Some u \<Rightarrow> db u)"

section \<open>callPkg\<close>

text \<open>
  \<open>callPkg\<close>. The remote call is a parameter: \<open>rpc cl name m\<close> is what
  \<open>cl.Call(name, m, reply)\<close> does, an error or the reply it fills in. The result is the
  tuple returned (reply, package name, route, error), the message afterwards and the
  remote call made, if one was made: the client, the procedure's name and the message sent.
  Reading \<open>pw.P\<close> through a nil \<open>pw\<close> would panic; that is the error \<open>PanicNilPointer\<close>.
\<close>

type_synonym call = "RPCClient \<times> string \<times> Msg"

type_synonym callPkg_result = "ResponseMsg \<times> string \<times> string \<times> error option"

definition empty_reply :: ResponseMsg where
  "empty_reply = \<lparr>Sentence = ''''\<rparr>"

definition callPkg ::
  "(RPCClient \<Rightarrow> string \<Rightarrow> Msg \<Rightarrow> error + ResponseMsg) \<Rightarrow> registry
     \<Rightarrow> (Msg \<Rightarrow> error + Resp option) \<Rightarrow> Msg \<Rightarrow> bool
     \<Rightarrow> callPkg_result \<times> Msg \<times> call option" where
  "callPkg rpc reg glr m ctxAdded =
     (case getPkg reg glr m of
        ((pw, route, lastRoute, Some err), m1) \<Rightarrow>
          ((empty_reply, (case pw of None \<Rightarrow> '''' | Some w \<Rightarrow> Name (Config (P w))),
            route, Some err), m1, None)
      | ((None, route, lastRoute, None), m1) \<Rightarrow>
          ((empty_reply, '''', route, Some PanicNilPointer), m1, None)
      | ((Some w, route, lastRoute, None), m1) \<Rightarrow>
          (let c0 = Title (Name (Config (P w)));
               c = (if ctxAdded \<or> lastRoute
                       \<or> length (Commands (StructuredInput (Input m1))) = 0
                    then c0 @ ''.FollowUp'' else c0 @ ''.Run'');
               m2 = m1\<lparr>Route := route\<rparr>
           in case rpc (RPCClient w) c m2 of
                Inl err \<Rightarrow>
                  ((empty_reply, Name (Config (P w)), route, Some err),
                   m2, Some (RPCClient w, c, m2))
              | Inr reply \<Rightarrow>
                  ((reply, Name (Config (P w)), route, None),
                   m2, Some (RPCClient w, c, m2))))"

section \<open>The resolver's iteration order, in the specification's words\<close>

text \<open>
  The compound key of a command and an object, the (command, object) pairs of an utterance
  in nested iteration order (commands outer, objects inner, every token cut at its first
  quote), and the test that a pair has a registry entry under its compound key.
\<close>

definition compound_key :: "string \<Rightarrow> string \<Rightarrow> string" where
  "compound_key c ob = ToLower (c @ ''_'' @ ob)"

definition is_compound_match :: "registry \<Rightarrow> string \<times> string \<Rightarrow> bool" where
  "is_compound_match reg = (\<lambda>(c, ob). reg (compound_key c ob) \<noteq> None)"

definition token_pairs :: "string list \<Rightarrow> string list \<Rightarrow> (string \<times> string) list" where
  "token_pairs cs obs = List.product (map split_quote_head cs) (map split_quote_head obs)"

section \<open>The keys of a trigger and registries built by registration\<close>

text \<open>
  The keys a package's trigger stands for, in the specification's words: the lowercased
  bare command tokens, and the compound keys of every (command, object) pair.
\<close>

definition command_keys :: "Pkg \<Rightarrow> string set" where
  "command_keys p = ToLower ` set (Commands (Trigger p))"

definition pair_keys :: "string list \<Rightarrow> string list \<Rightarrow> string set" where
  "pair_keys cs obs = (\<lambda>(c, ob). compound_key c ob) ` set (List.product cs obs)"

definition compound_keys :: "Pkg \<Rightarrow> string set" where
  "compound_keys p =
     (\<lambda>(c, ob). compound_key c ob) `
       set (List.product (Commands (Trigger p)) (Objects (Trigger p)))"

definition trigger_keys :: "Pkg \<Rightarrow> string set" where
  "trigger_keys p = command_keys p \<union> compound_keys p"

text \<open>
  The registry after a sequence of calls of \<open>RegisterPackage\<close>; \<open>regPkgs\<close> starts as the
  empty map.
\<close>

fun register_all :: "(string \<Rightarrow> error + RPCClient) \<Rightarrow> registry \<Rightarrow> Pkg list \<Rightarrow> registry" where
  "register_all dial reg [] = reg"
| "register_all dial reg (p # ps) =
     register_all dial (fst (snd (RegisterPackage dial reg p))) ps"

section \<open>Examples\<close>

text \<open>
  A skill "weather" listening on port 4000 with the trigger get/forecast, an onboarding
  skill, the registries they give, and utterances.
\<close>

definition weather :: Pkg where
  "weather = \<lparr>Config = \<lparr>Name = ''weather'', ServerAddress = ''localhost'', Port = 4000\<rparr>,
              Trigger = \<lparr>Commands = [''get''], Objects = [''forecast'']\<rparr>\<rparr>"

definition onboard :: Pkg where
  "onboard = \<lparr>Config = \<lparr>Name = ''onboard'', ServerAddress = ''localhost'', Port = 4002\<rparr>,
              Trigger = \<lparr>Commands = [''onboard''], Objects = []\<rparr>\<rparr>"

definition dial_ok :: "string \<Rightarrow> error + RPCClient" where
  "dial_ok addr = Inr (Conn 9)"

definition weather_registry :: registry where
  "weather_registry = fst (snd (RegisterPackage dial_ok Map.empty weather))"

definition full_registry :: registry where
  "full_registry = fst (snd (RegisterPackage dial_ok weather_registry onboard))"

definition utterance :: "User option \<Rightarrow> string list \<Rightarrow> string list \<Rightarrow> Msg" where
  "utterance u cs obs =
     \<lparr>User = u, Input = \<lparr>StructuredInput = \<lparr>Commands = cs, Objects = obs\<rparr>\<rparr>,
      LastResponse = None, Route = []\<rparr>"

definition no_last_response :: "Msg \<Rightarrow> error + Resp option" where
  "no_last_response m = Inr None"

definition news :: Pkg where
  "news = \<lparr>Config = \<lparr>Name = ''news'', ServerAddress = ''localhost'', Port = 4004\<rparr>,
           Trigger = \<lparr>Commands = [''get''], Objects = [''news'']\<rparr>\<rparr>"

definition dial_refused :: "string \<Rightarrow> error + RPCClient" where
  "dial_refused addr = Inl (ErrOther ''connection refused'')"

definition weather_entry :: PkgWrapper where
  "weather_entry = \<lparr>P = weather, RPCClient = Conn 9\<rparr>"

definition last_get_forecast :: "Msg \<Rightarrow> error + Resp option" where
  "last_get_forecast m = Inr (Some \<lparr>Resp.Route = ''get_forecast''\<rparr>)"

definition rpc_ok :: "RPCClient \<Rightarrow> string \<Rightarrow> Msg \<Rightarrow> error + ResponseMsg" where
  "rpc_ok cl name m = Inr \<lparr>Sentence = name\<rparr>"

definition forecast_store :: "User \<rightharpoonup> Resp" where
  "forecast_store = [7 \<mapsto> \<lparr>Resp.Route = ''get_forecast''\<rparr>]"

section \<open>Evaluating the string functions and the examples\<close>

lemmas string_eval = ToLower_def lower_char_def is_upper_def is_lower_def is_digit_def
  title_char_def Title_def isSeparator_def char_of_eq_iff compound_key_def
  split_quote_head_def quote_def

lemma weather_registry_eq:
  "weather_registry = [''get_forecast'' \<mapsto> weather_entry, ''get'' \<mapsto> weather_entry]"
  apply (simp add: weather_registry_def RegisterPackage_def dial_ok_def Let_def weather_entry_def)
  apply (simp add: weather_def string_eval Let_def)
  done

lemma weather_registry_all: "weather_registry = register_all dial_ok Map.empty [weather]"
  by (simp add: weather_registry_def)

lemma weather_registry_onboard: "weather_registry ''onboard'' = None"
  by (simp add: weather_registry_eq)

lemma full_registry_onboard: "full_registry ''onboard'' = Some \<lparr>P = onboard, RPCClient = Conn 9\<rparr>"
  apply (simp add: full_registry_def RegisterPackage_def dial_ok_def Let_def)
  apply (simp add: onboard_def string_eval Let_def)
  done

lemma dial_addr_weather: "dial_addr weather = ''localhost:4001''"
  by (simp add: dial_addr_def listen_port_def weather_def Itoa_def dec_digits.simps
      digit_char_def char_of_eq_iff)

section \<open>Lowercasing and compound keys\<close>

lemma lower_char_idem: "lower_char (lower_char ch) = lower_char ch"
  by (simp add: lower_char_def is_upper_def)

lemma ToLower_idem: "ToLower (ToLower s) = ToLower s"
  by (simp add: ToLower_def lower_char_idem)

lemma ToLower_append: "ToLower (s @ t) = ToLower s @ ToLower t"
  by (simp add: ToLower_def)

lemma ToLower_underscore: "ToLower (CHR ''_'' # s) = CHR ''_'' # ToLower s"
  by (simp add: ToLower_def lower_char_def is_upper_def)

lemma compound_key_append: "compound_key c ob = ToLower c @ CHR ''_'' # ToLower ob"
  by (simp add: compound_key_def ToLower_append ToLower_underscore)

lemma compound_key_lower_left: "ToLower (ToLower c @ CHR ''_'' # ob) = compound_key c ob"
  by (simp add: compound_key_append ToLower_append ToLower_underscore ToLower_idem)

lemma compound_key_lowercase: "ToLower (compound_key c ob) = compound_key c ob"
  by (simp add: compound_key_append ToLower_append ToLower_underscore ToLower_idem)

lemma compound_key_underscore: "CHR ''_'' \<in> set (compound_key c ob)"
  by (simp add: compound_key_append)

section \<open>Registration\<close>

subsection \<open>The inner loop\<close>

lemma register_objects_Cons:
  "register_objects p cl c (a # obs) (reg, logs) =
     register_objects p cl c obs
       (reg(ToLower (c @ CHR ''_'' # a) \<mapsto> \<lparr>P = p, RPCClient = cl\<rparr>),
        (if reg (ToLower (c @ CHR ''_'' # a)) \<noteq> None
         then logs @ [WarnDuplicate (Name (Config p)) (ToLower (c @ CHR ''_'' # a))]
         else logs))"
  by (simp add: Let_def)

lemma register_objects_map:
  "fst (register_objects p cl (ToLower c) obs (reg, logs)) k =
     (if k \<in> compound_key c ` set obs then Some \<lparr>P = p, RPCClient = cl\<rparr> else reg k)"
  by (induction obs arbitrary: reg logs) (auto simp: Let_def compound_key_lower_left)

lemma register_objects_logs_mono:
  "set logs \<subseteq> set (snd (register_objects p cl c obs (reg, logs)))"
proof (induction obs arbitrary: reg logs)
  case Nil
  then show ?case by simp
next
  case (Cons a obs)
  show ?case
    using Cons.IH [of "logs @ [WarnDuplicate (Name (Config p)) (ToLower (c @ ''_'' @ a))]"]
      Cons.IH [of logs]
    by (auto simp: Let_def)
qed

lemma register_objects_warns:
  "s \<in> compound_key c ` set obs \<Longrightarrow> reg s \<noteq> None
   \<Longrightarrow> WarnDuplicate (Name (Config p)) s
         \<in> set (snd (register_objects p cl (ToLower c) obs (reg, logs)))"
proof (induction obs arbitrary: reg logs)
  case Nil
  then show ?case by simp
next
  case (Cons a obs)
  let ?s = "ToLower (ToLower c @ CHR ''_'' # a)"
  let ?w = "\<lparr>P = p, RPCClient = cl\<rparr>"
  let ?warn = "WarnDuplicate (Name (Config p)) ?s"
  show ?case
  proof (cases "s = compound_key c a")
    case True
    then have s: "s = ?s" by (simp add: compound_key_lower_left)
    with Cons.prems(2) have hit: "reg ?s \<noteq> None" by simp
    have "?warn \<in> set (logs @ [?warn])" by simp
    with register_objects_logs_mono [of "logs @ [?warn]" p cl "ToLower c" obs "reg(?s \<mapsto> ?w)"]
    have "?warn \<in> set (snd (register_objects p cl (ToLower c) obs (reg(?s \<mapsto> ?w), logs @ [?warn])))"
      by blast
    with hit show ?thesis
      unfolding register_objects_Cons s by simp
  next
    case False
    with Cons.prems have mem: "s \<in> compound_key c ` set obs" by auto
    have upd: "(reg(?s \<mapsto> ?w)) s \<noteq> None"
      using Cons.prems(2) by simp
    show ?thesis
      unfolding register_objects_Cons
      by (rule Cons.IH [of "reg(?s \<mapsto> ?w)", OF mem upd])
  qed
qed

lemma register_objects_only_warns:
  "WarnDuplicate n k \<in> set (snd (register_objects p cl (ToLower c) obs (reg, logs)))
   \<Longrightarrow> WarnDuplicate n k \<in> set logs
       \<or> (n = Name (Config p) \<and> k \<in> compound_key c ` set obs)"
proof (induction obs arbitrary: reg logs)
  case Nil
  then show ?case by simp
next
  case (Cons a obs)
  from Cons.prems have "WarnDuplicate n k \<in> set
      (snd (register_objects p cl (ToLower c) obs
         (reg(ToLower (ToLower c @ CHR ''_'' # a) \<mapsto> \<lparr>P = p, RPCClient = cl\<rparr>),
          (if reg (ToLower (ToLower c @ CHR ''_'' # a)) \<noteq> None
           then logs @ [WarnDuplicate (Name (Config p)) (ToLower (ToLower c @ CHR ''_'' # a))]
           else logs))))"
    unfolding register_objects_Cons .
  from Cons.IH [OF this] show ?case
    by (auto simp: compound_key_lower_left split: if_splits)
qed

subsection \<open>The outer loop\<close>

lemma pair_keys_Nil: "pair_keys [] obs = {}"
  by (simp add: pair_keys_def)

lemma pair_keys_Cons: "pair_keys (c # cs) obs = compound_key c ` set obs \<union> pair_keys cs obs"
  by (auto simp: pair_keys_def)

lemma register_commands_Cons:
  "register_commands p cl (c # cs) (reg, logs) =
     register_commands p cl cs
       ((fst (register_objects p cl (ToLower c) (Objects (Trigger p)) (reg, logs)))
          (ToLower c \<mapsto> \<lparr>P = p, RPCClient = cl\<rparr>),
        snd (register_objects p cl (ToLower c) (Objects (Trigger p)) (reg, logs)))"
  by (simp add: Let_def split: prod.splits)

lemma register_commands_map:
  "fst (register_commands p cl cs (reg, logs)) k =
     (if k \<in> ToLower ` set cs \<union> pair_keys cs (Objects (Trigger p))
      then Some \<lparr>P = p, RPCClient = cl\<rparr> else reg k)"
proof (induction cs arbitrary: reg logs)
  case Nil
  then show ?case by (simp add: pair_keys_Nil)
next
  case (Cons c cs)
  show ?case
    unfolding register_commands_Cons Cons.IH
    by (simp add: register_objects_map pair_keys_Cons)
qed

lemma register_commands_logs_mono:
  "set logs \<subseteq> set (snd (register_commands p cl cs (reg, logs)))"
proof (induction cs arbitrary: reg logs)
  case Nil
  then show ?case by simp
next
  case (Cons c cs)
  have "set logs \<subseteq> set (snd (register_objects p cl (ToLower c) (Objects (Trigger p)) (reg, logs)))"
    by (rule register_objects_logs_mono)
  also have "\<dots> \<subseteq> set (snd (register_commands p cl (c # cs) (reg, logs)))"
    unfolding register_commands_Cons by (rule Cons.IH)
  finally show ?case .
qed

lemma register_commands_warns:
  "s \<in> pair_keys cs (Objects (Trigger p)) \<Longrightarrow> reg s \<noteq> None
   \<Longrightarrow> WarnDuplicate (Name (Config p)) s
         \<in> set (snd (register_commands p cl cs (reg, logs)))"
proof (induction cs arbitrary: reg logs)
  case Nil
  then show ?case by (simp add: pair_keys_Nil)
next
  case (Cons c cs)
  let ?st = "register_objects p cl (ToLower c) (Objects (Trigger p)) (reg, logs)"
  let ?w = "\<lparr>P = p, RPCClient = cl\<rparr>"
  show ?case
  proof (cases "s \<in> compound_key c ` set (Objects (Trigger p))")
    case True
    have "WarnDuplicate (Name (Config p)) s \<in> set (snd ?st)"
      using True Cons.prems(2) by (rule register_objects_warns)
    with register_commands_logs_mono [of "snd ?st" p cl cs "(fst ?st)(ToLower c \<mapsto> ?w)"]
    show ?thesis
      unfolding register_commands_Cons by blast
  next
    case False
    with Cons.prems(1) have mem: "s \<in> pair_keys cs (Objects (Trigger p))"
      by (simp add: pair_keys_Cons)
    have "fst ?st s \<noteq> None"
      using Cons.prems(2) by (simp add: register_objects_map)
    then have upd: "((fst ?st)(ToLower c \<mapsto> ?w)) s \<noteq> None"
      by simp
    show ?thesis
      unfolding register_commands_Cons
      by (rule Cons.IH [of "(fst ?st)(ToLower c \<mapsto> ?w)", OF mem upd])
  qed
qed

lemma register_commands_only_warns:
  "WarnDuplicate n k \<in> set (snd (register_commands p cl cs (reg, logs)))
   \<Longrightarrow> WarnDuplicate n k \<in> set logs
       \<or> (n = Name (Config p) \<and> k \<in> pair_keys cs (Objects (Trigger p)))"
proof (induction cs arbitrary: reg logs)
  case Nil
  then show ?case by simp
next
  case (Cons c cs)
  let ?st = "register_objects p cl (ToLower c) (Objects (Trigger p)) (reg, logs)"
  from Cons.prems have "WarnDuplicate n k \<in> set (snd (register_commands p cl cs
      ((fst ?st)(ToLower c \<mapsto> \<lparr>P = p, RPCClient = cl\<rparr>), snd ?st)))"
    unfolding register_commands_Cons .
  from Cons.IH [OF this] register_objects_only_warns [of n k p cl c "Objects (Trigger p)" reg logs]
  show ?case
    by (auto simp: pair_keys_Cons)
qed

lemma trigger_keys_eq:
  "trigger_keys p =
     ToLower ` set (Commands (Trigger p))
       \<union> pair_keys (Commands (Trigger p)) (Objects (Trigger p))"
  by (simp add: trigger_keys_def command_keys_def compound_keys_def pair_keys_def)

subsection \<open>RegisterPackage\<close>

lemma RegisterPackage_fail:
  "dial (dial_addr p) = Inl e \<Longrightarrow>
   RegisterPackage dial reg p = (Some e, reg, [LogRegistering (listen_port p), LogBugHere])"
  by (simp add: RegisterPackage_def)

lemma RegisterPackage_ok:
  "dial (dial_addr p) = Inr cl \<Longrightarrow>
   RegisterPackage dial reg p =
     (None, register_commands p cl (Commands (Trigger p)) (reg, [LogRegistering (listen_port p)]))"
  by (simp add: RegisterPackage_def split: prod.splits)

text \<open>
  C8. When dialling the package's RPC endpoint, at its server address and its port plus
  one, fails, \<open>RegisterPackage\<close> returns the dial error and leaves the registry as it
  was: no key of the package's trigger is inserted.
\<close>

theorem RegisterPackage_dial_failure:
  assumes "dial (ServerAddress (Config p) @ '':'' @ Itoa (sint (Port (Config p) + 1))) = Inl e"
  shows "fst (RegisterPackage dial reg p) = Some e
         \<and> fst (snd (RegisterPackage dial reg p)) = reg"
  using assms by (simp add: RegisterPackage_def dial_addr_def listen_port_def)

theorem RegisterPackage_dial_failure_witness:
  "dial_refused (ServerAddress (Config weather) @ '':'' @ Itoa (sint (Port (Config weather) + 1)))
     = Inl (ErrOther ''connection refused'')
   \<and> fst (RegisterPackage dial_refused Map.empty weather) = Some (ErrOther ''connection refused'')
   \<and> fst (snd (RegisterPackage dial_refused Map.empty weather)) = Map.empty"
proof -
  have d: "dial_refused (ServerAddress (Config weather) @ '':'' @
             Itoa (sint (Port (Config weather) + 1))) = Inl (ErrOther ''connection refused'')"
    by (simp add: dial_refused_def)
  from RegisterPackage_dial_failure
         [where dial = dial_refused and p = weather and reg = Map.empty, OF d] d
  show ?thesis
    by simp
qed

text \<open>
  C7, as the code has it. When the dial succeeds, \<open>RegisterPackage\<close> returns no error and
  the registry afterwards maps every key of the trigger, compound keys and bare command
  keys alike, to the new entry, whatever was there before (last writer wins), and leaves
  every other key alone. A warning naming the package and the key is logged for every
  compound key that was registered before. The warnings logged name the package and
  compound keys of its trigger only: a bare command key is overwritten without a warning
  of its own.
\<close>

theorem RegisterPackage_overwrites:
  assumes "dial (dial_addr p) = Inr cl"
  shows "fst (RegisterPackage dial reg p) = None
    \<and> (\<forall>k. fst (snd (RegisterPackage dial reg p)) k =
            (if k \<in> trigger_keys p then Some \<lparr>P = p, RPCClient = cl\<rparr> else reg k))
    \<and> (\<forall>s \<in> compound_keys p. reg s \<noteq> None \<longrightarrow>
          WarnDuplicate (Name (Config p)) s \<in> set (snd (snd (RegisterPackage dial reg p))))
    \<and> (\<forall>n k. WarnDuplicate n k \<in> set (snd (snd (RegisterPackage dial reg p))) \<longrightarrow>
          n = Name (Config p) \<and> k \<in> compound_keys p)"
proof -
  let ?logs = "[LogRegistering (listen_port p)]"
  let ?st = "register_commands p cl (Commands (Trigger p)) (reg, ?logs)"
  have r: "RegisterPackage dial reg p = (None, ?st)"
    using assms by (rule RegisterPackage_ok)
  have ck: "compound_keys p = pair_keys (Commands (Trigger p)) (Objects (Trigger p))"
    by (simp add: compound_keys_def pair_keys_def)
  have a: "\<forall>k. fst ?st k = (if k \<in> trigger_keys p then Some \<lparr>P = p, RPCClient = cl\<rparr> else reg k)"
    by (simp add: register_commands_map trigger_keys_eq)
  have b: "\<forall>s \<in> compound_keys p. reg s \<noteq> None \<longrightarrow>
          WarnDuplicate (Name (Config p)) s \<in> set (snd ?st)"
    unfolding ck using register_commands_warns [of _ "Commands (Trigger p)" p reg cl ?logs]
    by blast
  have c: "\<forall>n k. WarnDuplicate n k \<in> set (snd ?st) \<longrightarrow>
          n = Name (Config p) \<and> k \<in> compound_keys p"
    unfolding ck using register_commands_only_warns [of _ _ p cl "Commands (Trigger p)" reg ?logs]
    by auto
  from a b c show ?thesis
    unfolding r by simp
qed

theorem RegisterPackage_overwrites_witness:
  "dial_ok (dial_addr weather) = Inr (Conn 9)
   \<and> weather_registry ''get_forecast'' \<noteq> None
   \<and> fst (RegisterPackage dial_ok weather_registry weather) = None
   \<and> fst (snd (RegisterPackage dial_ok weather_registry weather)) ''get_forecast'' =
       Some \<lparr>P = weather, RPCClient = Conn 9\<rparr>
   \<and> WarnDuplicate ''weather'' ''get_forecast''
       \<in> set (snd (snd (RegisterPackage dial_ok weather_registry weather)))"
proof -
  have d: "dial_ok (dial_addr weather) = Inr (Conn 9)"
    by (simp add: dial_ok_def)
  have c: "''get_forecast'' \<in> compound_keys weather"
    by (simp add: compound_keys_def weather_def string_eval)
  then have t: "''get_forecast'' \<in> trigger_keys weather"
    by (simp add: trigger_keys_def)
  have r: "weather_registry ''get_forecast'' \<noteq> None"
    by (simp add: weather_registry_eq)
  have n: "Name (Config weather) = ''weather''"
    by (simp add: weather_def)
  from RegisterPackage_overwrites
         [where dial = dial_ok and p = weather and reg = weather_registry, OF d] d c t r n
  show ?thesis
    by auto
qed

text \<open>
  C7 as stated fails for a bare command key. The registry holds the weather skill under
  "get"; registering the news skill (trigger get/news) replaces that entry, and the only
  line logged is the one announcing the listen port: no warning names "get".
\<close>

theorem RegisterPackage_silent_overwrite:
  "weather_registry ''get'' = Some \<lparr>P = weather, RPCClient = Conn 9\<rparr>
   \<and> fst (RegisterPackage dial_ok weather_registry news) = None
   \<and> fst (snd (RegisterPackage dial_ok weather_registry news)) ''get'' =
       Some \<lparr>P = news, RPCClient = Conn 9\<rparr>
   \<and> snd (snd (RegisterPackage dial_ok weather_registry news)) = [LogRegistering 4005]"
  apply (simp add: RegisterPackage_def dial_ok_def Let_def weather_registry_eq weather_entry_def
      listen_port_def)
  apply (simp add: news_def string_eval Let_def)
  done

subsection \<open>The keys of a registry\<close>

lemma trigger_keys_lowercase: "k \<in> trigger_keys p \<Longrightarrow> ToLower k = k"
  by (auto simp: trigger_keys_def command_keys_def compound_keys_def ToLower_idem
      compound_key_lowercase)

lemma trigger_keys_no_underscore:
  "k \<in> trigger_keys p \<Longrightarrow> CHR ''_'' \<notin> set k \<Longrightarrow> k \<in> command_keys p"
  by (auto simp: trigger_keys_def compound_keys_def compound_key_underscore)

lemma RegisterPackage_dom:
  "k \<in> dom (fst (snd (RegisterPackage dial reg p))) \<Longrightarrow> k \<in> dom reg \<or> k \<in> trigger_keys p"
proof (cases "dial (dial_addr p)")
  case (Inl e)
  assume "k \<in> dom (fst (snd (RegisterPackage dial reg p)))"
  with Inl show ?thesis by (simp add: RegisterPackage_fail)
next
  case (Inr cl)
  assume "k \<in> dom (fst (snd (RegisterPackage dial reg p)))"
  with Inr show ?thesis
    by (auto simp: RegisterPackage_ok register_commands_map trigger_keys_eq dom_def
        split: if_splits)
qed

lemma register_all_dom:
  "k \<in> dom (register_all dial reg ps) \<Longrightarrow> k \<in> dom reg \<or> (\<exists>p \<in> set ps. k \<in> trigger_keys p)"
proof (induction ps arbitrary: reg)
  case Nil
  then show ?case by simp
next
  case (Cons p ps)
  from Cons.prems have "k \<in> dom (register_all dial (fst (snd (RegisterPackage dial reg p))) ps)"
    by simp
  from Cons.IH [OF this] RegisterPackage_dom [of k dial reg p] show ?case
    by auto
qed

lemma object_loop_shortRoute:
  "object_loop reg c obs (p, r, sr) = (False, (p', r', sr')) \<Longrightarrow> sr' \<noteq> sr
   \<Longrightarrow> sr' \<in> split_quote_head ` set obs \<and> reg sr' \<noteq> None"
proof (induction obs arbitrary: p r sr)
  case Nil
  then show ?case by simp
next
  case (Cons a obs)
  let ?ob = "split_quote_head a"
  let ?route = "ToLower (c @ CHR ''_'' # ?ob)"
  from Cons.prems(1) have miss: "reg ?route = None"
    by (auto simp: Let_def split: if_splits)
  with Cons.prems(1) have rest:
    "object_loop reg c obs (reg ?ob, ?route, (if reg ?ob \<noteq> None then ?ob else sr))
       = (False, (p', r', sr'))"
    by (simp add: Let_def)
  show ?case
  proof (cases "sr' = (if reg ?ob \<noteq> None then ?ob else sr)")
    case True
    with Cons.prems(2) show ?thesis by (auto split: if_splits)
  next
    case False
    from Cons.IH [OF rest False] show ?thesis by auto
  qed
qed

text \<open>
  C9, as the code has it. In a registry built by registrations from the empty one, every
  key is lowercased and is a lowercased command token or a compound key of a registered
  trigger. So when the resolver's inner loop records a bare-object fallback, the object
  token (cut at its first quote) is a lowercased command token or a compound key of some
  registered trigger, and it is a lowercased command token when it has no underscore.
\<close>

theorem registry_key_shape:
  assumes "reg = register_all dial Map.empty ps"
  shows "(\<forall>k \<in> dom reg. ToLower k = k \<and> (\<exists>p \<in> set ps. k \<in> command_keys p \<union> compound_keys p))
    \<and> (object_loop reg c obs (p0, r0, sr0) = (False, (p1, r1, sr1)) \<and> sr1 \<noteq> sr0 \<longrightarrow>
         sr1 \<in> split_quote_head ` set obs \<and> reg sr1 \<noteq> None
         \<and> (\<exists>p \<in> set ps. sr1 \<in> command_keys p \<union> compound_keys p)
         \<and> (CHR ''_'' \<notin> set sr1 \<longrightarrow> (\<exists>p \<in> set ps. sr1 \<in> command_keys p)))"
proof -
  have keys: "\<exists>p \<in> set ps. k \<in> trigger_keys p" if "k \<in> dom reg" for k
    using that register_all_dom [of k dial Map.empty ps] by (simp add: assms)
  have a: "\<forall>k \<in> dom reg. ToLower k = k \<and> (\<exists>p \<in> set ps. k \<in> command_keys p \<union> compound_keys p)"
    using keys trigger_keys_lowercase by (fastforce simp: trigger_keys_def)
  have b: "sr1 \<in> split_quote_head ` set obs \<and> reg sr1 \<noteq> None
         \<and> (\<exists>p \<in> set ps. sr1 \<in> command_keys p \<union> compound_keys p)
         \<and> (CHR ''_'' \<notin> set sr1 \<longrightarrow> (\<exists>p \<in> set ps. sr1 \<in> command_keys p))"
    if loop: "object_loop reg c obs (p0, r0, sr0) = (False, (p1, r1, sr1))" and ne: "sr1 \<noteq> sr0"
  proof -
    from object_loop_shortRoute [OF loop ne]
    have m: "sr1 \<in> split_quote_head ` set obs" and d: "reg sr1 \<noteq> None" by simp_all
    from d have "sr1 \<in> dom reg" by (simp add: dom_def)
    from keys [OF this] obtain p where p: "p \<in> set ps" "sr1 \<in> trigger_keys p" by blast
    from p trigger_keys_no_underscore [of sr1 p] m d show ?thesis
      by (auto simp: trigger_keys_def)
  qed
  from a b show ?thesis by blast
qed

theorem registry_key_shape_witness:
  "weather_registry = register_all dial_ok Map.empty [weather]
   \<and> object_loop weather_registry ''show'' [''get''] (None, [], []) =
       (False, (Some weather_entry, ''show_get'', ''get''))
   \<and> ''get'' \<in> command_keys weather"
proof -
  have o: "object_loop weather_registry ''show'' [''get''] (None, [], []) =
       (False, (Some weather_entry, ''show_get'', ''get''))"
    by (simp add: weather_registry_eq string_eval Let_def)
  have ne: "''get'' \<noteq> ([] :: string)" by simp
  have us: "CHR ''_'' \<notin> set ''get''" by simp
  have "\<exists>p \<in> set [weather]. ''get'' \<in> command_keys p"
    using registry_key_shape [OF weather_registry_all, of "''show''" "[''get'']" None "[]" "[]"
      "Some weather_entry" "''show_get''" "''get''"] o ne us
    by simp
  then have c: "''get'' \<in> command_keys weather" by simp
  show ?thesis
    by (intro conjI) (rule weather_registry_all o c)+
qed

text \<open>
  C9 as stated fails for an object token that equals a compound key. With only the
  weather skill registered, the object token "get_forecast" is recorded as bare-object
  fallback, and it is no command token of a registered skill, nor the onboarding key.
\<close>

theorem object_fallback_compound_key:
  "weather_registry = register_all dial_ok Map.empty [weather]
   \<and> object_loop weather_registry ''show'' [''get_forecast''] (None, [], []) =
       (False, (Some weather_entry, ''show_get_forecast'', ''get_forecast''))
   \<and> ''get_forecast'' \<notin> command_keys weather
   \<and> ''get_forecast'' \<noteq> ''onboard''"
proof -
  have o: "object_loop weather_registry ''show'' [''get_forecast''] (None, [], []) =
       (False, (Some weather_entry, ''show_get_forecast'', ''get_forecast''))"
    by (simp add: weather_registry_eq string_eval Let_def)
  have c: "''get_forecast'' \<notin> command_keys weather"
    by (simp add: command_keys_def weather_def string_eval)
  have n: "''get_forecast'' \<noteq> ''onboard''"
    by simp
  show ?thesis
    by (intro conjI) (rule weather_registry_all o c n)+
qed

section \<open>Resolution: exact matches\<close>

lemma find_append_case:
  "find Q (xs @ ys) = (case find Q xs of None \<Rightarrow> find Q ys | Some x \<Rightarrow> Some x)"
  by (induction xs) auto

lemma object_loop_hit:
  "find (is_compound_match reg) (map (Pair c) (map split_quote_head obs)) = Some (c', ob)
   \<Longrightarrow> object_loop reg c obs st = (True, (reg (compound_key c' ob), compound_key c' ob, ''''))"
proof (induction obs arbitrary: st)
  case Nil
  then show ?case by simp
next
  case (Cons a obs)
  obtain p r s where st: "st = (p, r, s)" by (cases st)
  show ?case
  proof (cases "reg (compound_key c (split_quote_head a)) = None")
    case True
    with Cons.prems have "find (is_compound_match reg) (map (Pair c) (map split_quote_head obs)) = Some (c', ob)"
      by (simp add: is_compound_match_def)
    from Cons.IH [OF this] True show ?thesis
      by (simp add: st compound_key_def Let_def)
  next
    case False
    with Cons.prems have "c' = c" "ob = split_quote_head a"
      by (simp_all add: is_compound_match_def)
    with False show ?thesis
      by (simp add: st compound_key_def Let_def)
  qed
qed

lemma object_loop_miss:
  "find (is_compound_match reg) (map (Pair c) (map split_quote_head obs)) = None
   \<Longrightarrow> fst (object_loop reg c obs st) = False"
proof (induction obs arbitrary: st)
  case Nil
  then show ?case by simp
next
  case (Cons a obs)
  obtain p r s where st: "st = (p, r, s)" by (cases st)
  from Cons.prems have miss: "reg (compound_key c (split_quote_head a)) = None"
    and rest: "find (is_compound_match reg) (map (Pair c) (map split_quote_head obs)) = None"
    by (simp_all add: is_compound_match_def split: if_splits)
  from Cons.IH [OF rest] miss show ?case
    by (simp add: st compound_key_def Let_def)
qed

lemma command_loop_hit:
  "find (is_compound_match reg) (token_pairs cs obs) = Some (c, ob)
   \<Longrightarrow> command_loop reg cs obs st = (reg (compound_key c ob), compound_key c ob, '''')"
proof (induction cs arbitrary: st)
  case Nil
  then show ?case by (simp add: token_pairs_def)
next
  case (Cons a cs)
  let ?row = "map (Pair (split_quote_head a)) (map split_quote_head obs)"
  have split: "find (is_compound_match reg) (token_pairs (a # cs) obs) =
      (case find (is_compound_match reg) ?row of
         None \<Rightarrow> find (is_compound_match reg) (token_pairs cs obs) | Some x \<Rightarrow> Some x)"
    unfolding token_pairs_def by (simp add: find_append_case)
  show ?case
  proof (cases "find (is_compound_match reg) ?row")
    case None
    with split Cons.prems have rest: "find (is_compound_match reg) (token_pairs cs obs) = Some (c, ob)"
      by simp
    from object_loop_miss [OF None, of st] obtain st' where
      ol: "object_loop reg (split_quote_head a) obs st = (False, st')"
      by (cases "object_loop reg (split_quote_head a) obs st") auto
    obtain p r s where st': "st' = (p, r, s)" by (cases st')
    show ?thesis
      by (simp add: ol st' Cons.IH [OF rest])
  next
    case (Some x)
    with split Cons.prems have "find (is_compound_match reg) ?row = Some (c, ob)" by simp
    from object_loop_hit [OF this] show ?thesis by simp
  qed
qed

lemma command_loop_hit_Some:
  assumes "find (is_compound_match reg) (token_pairs cs obs) = Some (c, ob)"
  shows "reg (compound_key c ob) \<noteq> None"
proof -
  from assms have "is_compound_match reg (c, ob)"
    by (auto simp: find_Some_iff)
  then show ?thesis by (simp add: is_compound_match_def)
qed

text \<open>
  C2. When the utterance has a user and some (command, object) pair, in nested iteration
  order with every token cut at its first quote, has a registry entry under its lowercased
  compound key, \<open>getPkg\<close> returns the entry of the first such pair with that key as the
  route and no error, whatever fallback candidate the earlier iterations recorded, and
  leaves the message as it was (the last response is not fetched).
\<close>

theorem getPkg_exact_match:
  assumes user: "User m \<noteq> None"
    and hit: "find (is_compound_match reg)
           (token_pairs (Commands (StructuredInput (Input m)))
              (Objects (StructuredInput (Input m)))) = Some (c, ob)"
  shows "getPkg reg glr m = ((reg (compound_key c ob), compound_key c ob, False, None), m)
         \<and> reg (compound_key c ob) \<noteq> None"
proof -
  have some: "reg (compound_key c ob) \<noteq> None"
    by (rule command_loop_hit_Some [OF hit])
  have loop: "command_loop reg (Commands (StructuredInput (Input m)))
       (Objects (StructuredInput (Input m))) (None, [], []) =
     (reg (compound_key c ob), compound_key c ob, [])"
    by (rule command_loop_hit [OF hit])
  from user obtain u where u: "User m = Some u" by auto
  from some obtain w where w: "reg (compound_key c ob) = Some w" by auto
  have "getPkg reg glr m = ((reg (compound_key c ob), compound_key c ob, False, None), m)"
    by (simp add: getPkg_def loop u w Let_def)
  with some show ?thesis by simp
qed

theorem getPkg_exact_match_witness:
  "User (utterance (Some 7) [''find'', ''GET''] [''weather'', ''Forecast'']) \<noteq> None
   \<and> getPkg weather_registry no_last_response
         (utterance (Some 7) [''find'', ''GET''] [''weather'', ''Forecast'']) =
       ((Some weather_entry, ''get_forecast'', False, None),
        utterance (Some 7) [''find'', ''GET''] [''weather'', ''Forecast''])"
proof -
  let ?m = "utterance (Some 7) [''find'', ''GET''] [''weather'', ''Forecast'']"
  have u: "User ?m \<noteq> None"
    by (simp add: utterance_def)
  have h: "find (is_compound_match weather_registry)
             (token_pairs (Commands (StructuredInput (Input ?m)))
                (Objects (StructuredInput (Input ?m)))) = Some (''GET'', ''Forecast'')"
    by (simp add: utterance_def token_pairs_def is_compound_match_def weather_registry_eq
        string_eval)
  have k: "compound_key ''GET'' ''Forecast'' = ''get_forecast''"
    by (simp add: string_eval)
  have e: "weather_registry ''get_forecast'' = Some weather_entry"
    by (simp add: weather_registry_eq)
  from getPkg_exact_match
         [where m = ?m and reg = weather_registry and glr = no_last_response, OF u h] u
  show ?thesis
    by (simp add: k e)
qed

section \<open>Resolution: utterances without a user\<close>

text \<open>
  C5. For an utterance with no user, \<open>getPkg\<close> returns the registry entry keyed
  "onboard" with the route "onboard", and the error \<open>ErrMissingPackage\<close> exactly when
  that entry is absent; the command and object tokens play no part.
\<close>

theorem getPkg_no_user:
  "User m = None \<Longrightarrow>
   getPkg reg glr m =
     ((reg ''onboard'', ''onboard'', False,
       (if reg ''onboard'' = None then Some ErrMissingPackage else None)), m)"
  by (simp add: getPkg_def)

theorem getPkg_no_user_witness:
  "User (utterance None [''get''] [''forecast'']) = None
   \<and> getPkg full_registry no_last_response (utterance None [''get''] [''forecast'']) =
       ((Some \<lparr>P = onboard, RPCClient = Conn 9\<rparr>, ''onboard'', False, None),
        utterance None [''get''] [''forecast''])
   \<and> getPkg weather_registry no_last_response (utterance None [''get''] [''forecast'']) =
       ((None, ''onboard'', False, Some ErrMissingPackage),
        utterance None [''get''] [''forecast''])"
proof -
  let ?m = "utterance None [''get''] [''forecast'']"
  have u: "User ?m = None"
    by (simp add: utterance_def)
  from getPkg_no_user [where m = ?m and reg = full_registry and glr = no_last_response, OF u]
       getPkg_no_user [where m = ?m and reg = weather_registry and glr = no_last_response, OF u]
       u
  show ?thesis
    by (simp add: full_registry_onboard weather_registry_onboard)
qed

section \<open>Resolution: bare-key fallback\<close>

text \<open>
  When no compound key matches, the variable \<open>p\<close> after the loops is the lookup of the
  last command's bare key, whatever candidate \<open>shortRoute\<close> holds.
\<close>

lemma command_loop_miss_last:
  assumes "find (is_compound_match reg) (token_pairs cs obs) = None" and "cs \<noteq> []"
  shows "fst (command_loop reg cs obs st) = reg (split_quote_head (last cs))"
  using assms
proof (induction cs arbitrary: st)
  case Nil
  then show ?case by simp
next
  case (Cons a cs)
  let ?row = "map (Pair (split_quote_head a)) (map split_quote_head obs)"
  have "find (is_compound_match reg) (token_pairs (a # cs) obs) =
      (case find (is_compound_match reg) ?row of
         None \<Rightarrow> find (is_compound_match reg) (token_pairs cs obs) | Some x \<Rightarrow> Some x)"
    unfolding token_pairs_def by (simp add: find_append_case)
  with Cons.prems(1) have row: "find (is_compound_match reg) ?row = None"
    and rest: "find (is_compound_match reg) (token_pairs cs obs) = None"
    by (simp_all split: option.splits)
  from object_loop_miss [OF row, of st] obtain p r s where
    ol: "object_loop reg (split_quote_head a) obs st = (False, (p, r, s))"
    by (cases "object_loop reg (split_quote_head a) obs st") auto
  show ?case
  proof (cases "cs = []")
    case True
    then show ?thesis by (simp add: ol Let_def)
  next
    case False
    from Cons.IH [OF rest False] False show ?thesis
      by (simp add: ol Let_def)
  qed
qed

text \<open>
  C1 at a failing input. Only the weather skill is registered, and the utterance has the
  commands "get", "show" and the object "time". No compound key matches; the first pass
  records the bare command key "get" as fallback candidate, the second pass looks up
  "show" and sets \<open>p\<close> back to nil. After the loops the route is "get" and \<open>p\<close> is nil, so
  \<open>getPkg\<close> fetches the last response: without one it fails with \<open>ErrMissingPackage\<close>, and
  with the last route "get_forecast" it resolves to that route, not to the candidate.
\<close>

theorem getPkg_fallback_lost:
  "command_loop weather_registry [''get'', ''show''] [''time''] (None, [], []) =
     (None, ''show_time'', ''get'')
   \<and> getPkg weather_registry no_last_response (utterance (Some 7) [''get'', ''show''] [''time'']) =
     ((None, ''get'', False, Some ErrMissingPackage),
      utterance (Some 7) [''get'', ''show''] [''time''])
   \<and> fst (getPkg weather_registry last_get_forecast
            (utterance (Some 7) [''get'', ''show''] [''time''])) =
     (Some weather_entry, ''get_forecast'', False, None)"
  by (simp add: getPkg_def utterance_def weather_registry_eq last_get_forecast_def
      no_last_response_def Let_def string_eval)

lemma object_loop_no_bare:
  assumes "\<forall>ob \<in> set obs. reg (split_quote_head ob) = None"
    and "find (is_compound_match reg) (map (Pair c) (map split_quote_head obs)) = None"
  shows "\<exists>r'. object_loop reg c obs (None, r, []) = (False, (None, r', []))"
  using assms
proof (induction obs arbitrary: r)
  case Nil
  then show ?case by simp
next
  case (Cons a obs)
  from Cons.prems(2) have miss: "reg (ToLower (c @ CHR ''_'' # split_quote_head a)) = None"
    and rest: "find (is_compound_match reg) (map (Pair c) (map split_quote_head obs)) = None"
    by (simp_all add: is_compound_match_def compound_key_def split: if_splits)
  from Cons.prems(1) have bare: "reg (split_quote_head a) = None"
    and bares: "\<forall>ob \<in> set obs. reg (split_quote_head ob) = None"
    by simp_all
  from Cons.IH [OF bares rest] miss bare show ?case
    by (simp add: Let_def)
qed

lemma command_loop_no_bare:
  assumes "\<forall>c \<in> set cs. reg (split_quote_head c) = None"
    and "\<forall>ob \<in> set obs. reg (split_quote_head ob) = None"
    and "find (is_compound_match reg) (token_pairs cs obs) = None"
  shows "\<exists>r'. command_loop reg cs obs (None, r, []) = (None, r', [])"
  using assms
proof (induction cs arbitrary: r)
  case Nil
  then show ?case by simp
next
  case (Cons a cs)
  let ?row = "map (Pair (split_quote_head a)) (map split_quote_head obs)"
  have "find (is_compound_match reg) (token_pairs (a # cs) obs) =
      (case find (is_compound_match reg) ?row of
         None \<Rightarrow> find (is_compound_match reg) (token_pairs cs obs) | Some x \<Rightarrow> Some x)"
    unfolding token_pairs_def by (simp add: find_append_case)
  with Cons.prems(3) have row: "find (is_compound_match reg) ?row = None"
    and rest: "find (is_compound_match reg) (token_pairs cs obs) = None"
    by (simp_all split: option.splits)
  from object_loop_no_bare [OF Cons.prems(2) row] obtain r1 where
    ol: "object_loop reg (split_quote_head a) obs (None, r, []) = (False, (None, r1, []))"
    by blast
  from Cons.prems(1) have bare: "reg (split_quote_head a) = None"
    and bares: "\<forall>c \<in> set cs. reg (split_quote_head c) = None"
    by simp_all
  from Cons.IH [OF bares Cons.prems(2) rest, of r1] ol bare show ?case
    by simp
qed






section \<open>Resolution: the last route\<close>

lemma getPkg_user_no_match:
  assumes "User m = Some u"
    and "fst (command_loop reg (Commands (StructuredInput (Input m)))
                (Objects (StructuredInput (Input m))) (None, [], [])) = None"
  shows "\<exists>route. getPkg reg glr m =
     (case glr m of
        Inl err \<Rightarrow> ((None, route, False, Some err), m)
      | Inr None \<Rightarrow> ((None, route, False, Some ErrMissingPackage), m\<lparr>LastResponse := None\<rparr>)
      | Inr (Some r) \<Rightarrow>
          (if reg (Resp.Route r) = None
           then ((None, Resp.Route r, True, Some ErrMissingPackage), m\<lparr>LastResponse := Some r\<rparr>)
           else ((reg (Resp.Route r), Resp.Route r, False, None), m\<lparr>LastResponse := None\<rparr>)))"
  using assms
  by (auto simp: getPkg_def Let_def split: prod.splits sum.splits option.splits)

text \<open>
  C4, as the code has it. When the utterance has a user, the loops find no entry,
  \<open>GetLastResponse\<close> delivers a last response and its route is registered, \<open>getPkg\<close>
  resolves to that route and leaves the message with \<open>LastResponse\<close> cleared. A second
  resolution of that message fetches the last response again, whatever the field holds:
  it fails with \<open>ErrMissingPackage\<close> when the fetch finds none, or one whose route is not
  registered, and it resolves to the fetched route when that is registered, so to the
  same route again when the fetch delivers the same last response.
\<close>

theorem getPkg_last_route_second_attempt:
  assumes user: "User m = Some u"
    and nomatch: "fst (command_loop reg (Commands (StructuredInput (Input m)))
                (Objects (StructuredInput (Input m))) (None, [], [])) = None"
    and last: "glr m = Inr (Some r)"
    and found: "reg (Resp.Route r) = Some w"
  shows "getPkg reg glr m = ((Some w, Resp.Route r, False, None), m\<lparr>LastResponse := None\<rparr>)
    \<and> LastResponse (snd (getPkg reg glr m)) = None
    \<and> (\<forall>glr'. \<exists>route. getPkg reg glr' (snd (getPkg reg glr m)) =
          (case glr' (snd (getPkg reg glr m)) of
             Inl err \<Rightarrow> ((None, route, False, Some err), m\<lparr>LastResponse := None\<rparr>)
           | Inr None \<Rightarrow>
               ((None, route, False, Some ErrMissingPackage), m\<lparr>LastResponse := None\<rparr>)
           | Inr (Some r') \<Rightarrow>
               (if reg (Resp.Route r') = None
                then ((None, Resp.Route r', True, Some ErrMissingPackage),
                      m\<lparr>LastResponse := Some r'\<rparr>)
                else ((reg (Resp.Route r'), Resp.Route r', False, None),
                      m\<lparr>LastResponse := None\<rparr>))))"
proof -
  let ?m' = "m\<lparr>LastResponse := None\<rparr>"
  from getPkg_user_no_match [OF user nomatch, of glr] last found
  have first: "getPkg reg glr m = ((Some w, Resp.Route r, False, None), ?m')"
    by simp
  have user': "User ?m' = Some u" using user by simp
  have nomatch': "fst (command_loop reg (Commands (StructuredInput (Input ?m')))
                (Objects (StructuredInput (Input ?m'))) (None, [], [])) = None"
    using nomatch by simp
  have second: "\<exists>route. getPkg reg glr' ?m' =
          (case glr' ?m' of
             Inl err \<Rightarrow> ((None, route, False, Some err), ?m')
           | Inr None \<Rightarrow> ((None, route, False, Some ErrMissingPackage), ?m')
           | Inr (Some r') \<Rightarrow>
               (if reg (Resp.Route r') = None
                then ((None, Resp.Route r', True, Some ErrMissingPackage),
                      m\<lparr>LastResponse := Some r'\<rparr>)
                else ((reg (Resp.Route r'), Resp.Route r', False, None), ?m')))" for glr'
  proof -
    from getPkg_user_no_match [OF user' nomatch', of glr'] obtain route where
      g: "getPkg reg glr' ?m' =
        (case glr' ?m' of
           Inl err \<Rightarrow> ((None, route, False, Some err), ?m')
         | Inr None \<Rightarrow>
             ((None, route, False, Some ErrMissingPackage), ?m'\<lparr>LastResponse := None\<rparr>)
         | Inr (Some r) \<Rightarrow>
             (if reg (Resp.Route r) = None
              then ((None, Resp.Route r, True, Some ErrMissingPackage),
                    ?m'\<lparr>LastResponse := Some r\<rparr>)
              else ((reg (Resp.Route r), Resp.Route r, False, None),
                    ?m'\<lparr>LastResponse := None\<rparr>)))"
      by blast
    show ?thesis
      by (rule exI [of _ route]) (simp add: g split: sum.splits option.splits)
  qed
  have s: "snd (getPkg reg glr m) = ?m'"
    by (simp add: first)
  from first second show ?thesis
    unfolding s by simp
qed

theorem getPkg_last_route_second_attempt_witness:
  "User (utterance (Some 7) [] []) = Some 7
   \<and> GetLastResponse forecast_store (utterance (Some 7) [] []) =
       Inr (Some \<lparr>Resp.Route = ''get_forecast''\<rparr>)
   \<and> weather_registry ''get_forecast'' = Some weather_entry
   \<and> getPkg weather_registry (GetLastResponse forecast_store) (utterance (Some 7) [] []) =
       ((Some weather_entry, ''get_forecast'', False, None), utterance (Some 7) [] [])
   \<and> getPkg weather_registry (GetLastResponse forecast_store)
       (snd (getPkg weather_registry (GetLastResponse forecast_store)
               (utterance (Some 7) [] []))) =
       ((Some weather_entry, ''get_forecast'', False, None), utterance (Some 7) [] [])
   \<and> (\<exists>route. getPkg weather_registry (GetLastResponse Map.empty)
         (snd (getPkg weather_registry (GetLastResponse forecast_store)
                 (utterance (Some 7) [] []))) =
       ((None, route, False, Some ErrMissingPackage), utterance (Some 7) [] []))"
proof -
  let ?m = "utterance (Some 7) [] []"
  let ?glr = "GetLastResponse forecast_store"
  let ?r = "\<lparr>Resp.Route = ''get_forecast''\<rparr>"
  have u: "User ?m = Some 7"
    by (simp add: utterance_def)
  have n: "fst (command_loop weather_registry (Commands (StructuredInput (Input ?m)))
                (Objects (StructuredInput (Input ?m))) (None, [], [])) = None"
    by (simp add: utterance_def)
  have l: "?glr ?m = Inr (Some ?r)"
    by (simp add: GetLastResponse_def forecast_store_def utterance_def)
  have f: "weather_registry (Resp.Route ?r) = Some weather_entry"
    by (simp add: weather_registry_eq)
  have m': "?m\<lparr>LastResponse := None\<rparr> = ?m"
    by (simp add: utterance_def)
  note second = getPkg_last_route_second_attempt
         [where m = ?m and reg = weather_registry and glr = ?glr, OF u n l f]
  from second have first: "getPkg weather_registry ?glr ?m =
      ((Some weather_entry, ''get_forecast'', False, None), ?m)"
    by (simp add: m')
  then have s: "snd (getPkg weather_registry ?glr ?m) = ?m"
    by simp
  from second have all: "\<forall>glr'. \<exists>route. getPkg weather_registry glr' ?m =
          (case glr' ?m of
             Inl err \<Rightarrow> ((None, route, False, Some err), ?m)
           | Inr None \<Rightarrow> ((None, route, False, Some ErrMissingPackage), ?m)
           | Inr (Some r') \<Rightarrow>
               (if weather_registry (Resp.Route r') = None
                then ((None, Resp.Route r', True, Some ErrMissingPackage),
                      ?m\<lparr>LastResponse := Some r'\<rparr>)
                else ((weather_registry (Resp.Route r'), Resp.Route r', False, None), ?m)))"
    unfolding s m' by blast
  from all [rule_format, of ?glr] l f
  have again: "getPkg weather_registry ?glr ?m =
      ((Some weather_entry, ''get_forecast'', False, None), ?m)"
    by simp
  have e: "GetLastResponse Map.empty ?m = Inr None"
    by (simp add: GetLastResponse_def utterance_def)
  from all [rule_format, of "GetLastResponse Map.empty"] e
  have none: "\<exists>route. getPkg weather_registry (GetLastResponse Map.empty) ?m =
      ((None, route, False, Some ErrMissingPackage), ?m)"
    by simp
  from u l f first again none show ?thesis
    unfolding s by simp
qed

lemma forecast_first:
  "getPkg weather_registry (GetLastResponse forecast_store) (utterance (Some 7) [] []) =
     ((Some weather_entry, ''get_forecast'', False, None), utterance (Some 7) [] [])"
  by (simp add: getPkg_def GetLastResponse_def forecast_store_def utterance_def
      weather_registry_eq Let_def)

text \<open>
  C4 as stated fails when the store still holds the last response. The user's last
  response has the route "get_forecast" and the utterance has no tokens. The first
  resolution goes through the last route and clears the field in the message; the second
  resolution of that message, with the store as it was and no new last response, fetches
  the same response and resolves to "get_forecast" again instead of failing.
\<close>

theorem getPkg_last_route_reused:
  "getPkg weather_registry (GetLastResponse forecast_store) (utterance (Some 7) [] []) =
     ((Some weather_entry, ''get_forecast'', False, None), utterance (Some 7) [] [])
   \<and> LastResponse (snd (getPkg weather_registry (GetLastResponse forecast_store)
                          (utterance (Some 7) [] []))) = None
   \<and> getPkg weather_registry (GetLastResponse forecast_store)
       (snd (getPkg weather_registry (GetLastResponse forecast_store)
               (utterance (Some 7) [] []))) =
     ((Some weather_entry, ''get_forecast'', False, None), utterance (Some 7) [] [])"
  by (simp add: forecast_first) (simp add: utterance_def)

text \<open>
  The clearing concerns the message only: when \<open>GetLastResponse\<close> delivers the same last
  response again, the second resolution returns what the first did.
\<close>

lemma getPkg_last_route_refetched:
  assumes user: "User m = Some u"
    and nomatch: "fst (command_loop reg (Commands (StructuredInput (Input m)))
                (Objects (StructuredInput (Input m))) (None, [], [])) = None"
    and last: "glr m = Inr (Some r)"
    and found: "reg (Resp.Route r) = Some w"
    and again: "glr' (snd (getPkg reg glr m)) = Inr (Some r)"
  shows "getPkg reg glr' (snd (getPkg reg glr m)) = getPkg reg glr m"
proof -
  let ?m' = "m\<lparr>LastResponse := None\<rparr>"
  from getPkg_user_no_match [OF user nomatch, of glr] last found
  have first: "getPkg reg glr m = ((Some w, Resp.Route r, False, None), ?m')"
    by simp
  have user': "User ?m' = Some u" using user by simp
  have nomatch': "fst (command_loop reg (Commands (StructuredInput (Input ?m')))
                (Objects (StructuredInput (Input ?m'))) (None, [], [])) = None"
    using nomatch by simp
  from again first have "glr' ?m' = Inr (Some r)" by simp
  with getPkg_user_no_match [OF user' nomatch', of glr'] found first show ?thesis
    by simp
qed

section \<open>Dispatch\<close>

lemma getPkg_success:
  assumes "fst (getPkg reg glr m) = (pw, route, lastRoute, None)"
  shows "pw \<noteq> None \<and> lastRoute = False \<and> Input (snd (getPkg reg glr m)) = Input m"
  using assms
  by (auto simp: getPkg_def Let_def split: if_splits prod.splits sum.splits option.splits
      dest: sym)

text \<open>
  C6. When \<open>getPkg\<close> resolves the utterance without error, \<open>callPkg\<close> calls, on the
  entry's client, the procedure named by the title-cased package name followed by
  ".FollowUp" if the context-added flag is set or the utterance has no command tokens,
  and by ".Run" otherwise; the message sent is the utterance with the resolved route
  written to its \<open>Route\<close>.
\<close>

theorem callPkg_mode:
  assumes "fst (getPkg reg glr m) = (pw, route, lastRoute, None)"
  shows "\<exists>w. pw = Some w \<and>
     snd (snd (callPkg rpc reg glr m ctxAdded)) =
       Some (RPCClient w,
             Title (Name (Config (P w))) @
               (if ctxAdded \<or> Commands (StructuredInput (Input m)) = []
                then ''.FollowUp'' else ''.Run''),
             (snd (getPkg reg glr m))\<lparr>Route := route\<rparr>)"
proof -
  from getPkg_success [OF assms] obtain w where
    w: "pw = Some w" and l: "lastRoute = False"
    and i: "Input (snd (getPkg reg glr m)) = Input m"
    by auto
  obtain m1 where g: "getPkg reg glr m = ((Some w, route, False, None), m1)"
    using assms w l by (cases "getPkg reg glr m") auto
  from i g have i1: "Input m1 = Input m" by simp
  show ?thesis
    by (simp add: w callPkg_def g Let_def i1 split: sum.splits)
qed

theorem callPkg_mode_witness:
  "fst (getPkg weather_registry no_last_response (utterance (Some 7) [''get''] [''forecast''])) =
     (Some weather_entry, ''get_forecast'', False, None)
   \<and> snd (snd (callPkg rpc_ok weather_registry no_last_response
              (utterance (Some 7) [''get''] [''forecast'']) False)) =
       Some (Conn 9, ''Weather.Run'',
             (utterance (Some 7) [''get''] [''forecast''])\<lparr>Route := ''get_forecast''\<rparr>)
   \<and> snd (snd (callPkg rpc_ok weather_registry no_last_response
              (utterance (Some 7) [''get''] [''forecast'']) True)) =
       Some (Conn 9, ''Weather.FollowUp'',
             (utterance (Some 7) [''get''] [''forecast''])\<lparr>Route := ''get_forecast''\<rparr>)"
proof -
  let ?m = "utterance (Some 7) [''get''] [''forecast'']"
  have g: "getPkg weather_registry no_last_response ?m =
      ((Some weather_entry, ''get_forecast'', False, None), ?m)"
    by (simp add: getPkg_def utterance_def weather_registry_eq Let_def string_eval)
  then have h: "fst (getPkg weather_registry no_last_response ?m) =
      (Some weather_entry, ''get_forecast'', False, None)"
    by simp
  have t: "Title (Name (Config (P weather_entry))) = ''Weather''"
    by (simp add: weather_entry_def weather_def string_eval)
  have c: "Commands (StructuredInput (Input ?m)) \<noteq> []"
    by (simp add: utterance_def)
  have r: "RPCClient weather_entry = Conn 9"
    by (simp add: weather_entry_def)
  from callPkg_mode [OF h, of rpc_ok False] callPkg_mode [OF h, of rpc_ok True] h
  show ?thesis
    by (simp add: g t c r)
qed

text \<open>
  C3 at a failing input. Only the weather skill is registered; the utterance has the one
  command "hello", which matches nothing, and the user's last response has the route
  "get_forecast". \<open>getPkg\<close> resolves through the last route and returns the last-route flag
  \<open>False\<close>; with the context-added flag unset, \<open>callPkg\<close> calls "Weather.Run".
\<close>

theorem callPkg_last_route_runs:
  "fst (getPkg weather_registry last_get_forecast (utterance (Some 7) [''hello''] [])) =
     (Some weather_entry, ''get_forecast'', False, None)
   \<and> snd (snd (callPkg rpc_ok weather_registry last_get_forecast
              (utterance (Some 7) [''hello''] []) False)) =
     Some (Conn 9, ''Weather.Run'',
           (utterance (Some 7) [''hello''] [])\<lparr>Route := ''get_forecast''\<rparr>)"
  by (simp add: callPkg_def getPkg_def utterance_def weather_registry_eq last_get_forecast_def
      rpc_ok_def Let_def string_eval weather_entry_def weather_def)

end
